theory Spec2Isabelle
  imports Main "HOL-Library.Word" "HOL-Library.Finite_Map" "HOL-Library.Multiset"
    "HOL-Library.List_Lexorder" "HOL-Library.AList"
begin

section \<open>Strings\<close>

text \<open>
  A TypeScript string is a sequence of UTF-16 code units: \<open>length\<close> counts code units,
  \<open>split('')\<close> cuts at every code unit, the string iterator (\<open>for ... of\<close>, spread)
  yields code points and keeps a surrogate pair together, and the default \<open>sort()\<close>
  compares code unit by code unit, a proper prefix first (the order on lists of
  the library theory List_Lexorder).
\<close>

type_synonym jsstring = "16 word list"

definition ascii :: "string \<Rightarrow> jsstring" where
  "ascii s = map (\<lambda>c. of_nat (of_char c)) s"

definition startsWith :: "jsstring \<Rightarrow> jsstring \<Rightarrow> bool" where
  "startsWith s p = (take (length p) s = p)"

definition endsWith :: "jsstring \<Rightarrow> jsstring \<Rightarrow> bool" where
  "endsWith s p = (length p \<le> length s \<and> drop (length s - length p) s = p)"

definition isHighSurrogate :: "16 word \<Rightarrow> bool" where
  "isHighSurrogate u = (0xD800 \<le> u \<and> u \<le> 0xDBFF)"

definition isLowSurrogate :: "16 word \<Rightarrow> bool" where
  "isLowSurrogate u = (0xDC00 \<le> u \<and> u \<le> 0xDFFF)"

text \<open>The string iterator: \<open>[...word]\<close> and \<open>for (const char of word)\<close>.\<close>

fun codePoints :: "jsstring \<Rightarrow> jsstring list" where
  "codePoints [] = []"
| "codePoints [u] = [[u]]"
| "codePoints (u # v # rest) =
     (if isHighSurrogate u \<and> isLowSurrogate v then [u, v] # codePoints rest
      else [u] # codePoints (v # rest))"

text \<open>\<open>xs.join(sep)\<close>.\<close>

fun join :: "jsstring \<Rightarrow> jsstring list \<Rightarrow> jsstring" where
  "join sep [] = []"
| "join sep [x] = x"
| "join sep (x # y # ys) = x @ sep @ join sep (y # ys)"

text \<open>A number in a template literal: the decimal digits of a natural number.\<close>

fun decimal :: "nat \<Rightarrow> jsstring" where
  "decimal n = (if n < 10 then [0x30 + of_nat n]
                else decimal (n div 10) @ [0x30 + of_nat (n mod 10)])"

declare decimal.simps [simp del]

text \<open>\<open>xs.indexOf(x)\<close>, with \<open>-1\<close> when \<open>x\<close> is absent, and \<open>xs.splice(index, 1)\<close>.\<close>

definition indexOf :: "'a list \<Rightarrow> 'a \<Rightarrow> int" where
  "indexOf xs x = (if x \<in> set xs then int (length (takeWhile (\<lambda>y. y \<noteq> x) xs)) else - 1)"

definition splice1 :: "'a list \<Rightarrow> int \<Rightarrow> 'a list" where
  "splice1 xs index = take (nat index) xs @ drop (nat index + 1) xs"

section \<open>Data model (types.ts)\<close>

record CharacterDecomposition =
  decompCharacter :: jsstring
  ids :: jsstring
  components :: "jsstring list"

text \<open>
  The two tables are JSON objects, hence finite maps from strings: their own properties.
  Only the fields of \<open>GameData\<close> that the engine's combination, hint and pool functions
  read are kept.
\<close>

record GameData =
  charToDecomposition :: "(jsstring, CharacterDecomposition) fmap"
  componentsToChars :: "(jsstring, jsstring list) fmap"

text \<open>
  \<open>obj[key]\<close> on an object built by \<open>JSON.parse\<close> yields the own property under \<open>key\<close>
  if there is one, else the property that \<open>Object.prototype\<close> has under that name, else
  \<open>undefined\<close>. The own values of the tables are objects and arrays and the inherited
  values are functions or the prototype object, all of them truthy, so \<open>!obj[key]\<close> is
  the negation of \<open>truthyProperty\<close>. The lookups of symbols that come from the game data
  (characters and \<open>&...;\<close> placeholders, none of them an inherited name) read the own
  properties; \<open>combineCards\<close> receives its target from the caller, any string, and tests
  it with \<open>truthyProperty\<close>.
\<close>

definition objectPrototypeNames :: "jsstring list" where
  "objectPrototypeNames =
     map ascii [''constructor'', ''hasOwnProperty'', ''isPrototypeOf'',
                ''propertyIsEnumerable'', ''toLocaleString'', ''toString'', ''valueOf'',
                ''__proto__'', ''__defineGetter__'', ''__defineSetter__'',
                ''__lookupGetter__'', ''__lookupSetter__'']"

definition truthyProperty :: "(jsstring, 'a) fmap \<Rightarrow> jsstring \<Rightarrow> bool" where
  "truthyProperty obj key = (fmlookup obj key \<noteq> None \<or> key \<in> set objectPrototypeNames)"

record Card =
  cardId :: jsstring
  character :: jsstring
  isLeaf :: bool

text \<open>The optional \<open>isAnswer?: boolean\<close> is absent (\<open>None\<close>) on a hint built by the search.\<close>

record Hint =
  cardIds :: "jsstring list"
  used :: bool
  isAnswer :: "bool option"

record Step =
  stepCardIds :: "jsstring list"
  result :: jsstring
  leadsToTarget :: bool

section \<open>Leaf reduction\<close>

text \<open>
  \<open>decomposeToLeaves\<close>: the recursion descends only into a character that has an entry
  and is not yet on the path, so the entries not on the path shrink at every call.
\<close>

function decomposeToLeaves :: "jsstring \<Rightarrow> GameData \<Rightarrow> jsstring list \<Rightarrow> jsstring list" where
  "decomposeToLeaves ch data path =
     (if ch \<in> set path then [ch]
      else case fmlookup (charToDecomposition data) ch of
             None \<Rightarrow> [ch]
           | Some decomp \<Rightarrow>
               concat (map (\<lambda>component. decomposeToLeaves component data (path @ [ch]))
                           (components decomp)))"
  by pat_completeness auto
termination
proof (relation "measure (\<lambda>(ch, data, path).
                   card (fmdom' (charToDecomposition data) - set path))")
  show "wf (measure (\<lambda>(ch, data, path).
              card (fmdom' (charToDecomposition data) - set path)))"
    by simp
next
  fix ch :: jsstring and data :: GameData and path :: "jsstring list"
    and decomp component
  assume notin: "ch \<notin> set path"
    and entry: "fmlookup (charToDecomposition data) ch = Some decomp"
  have fin: "finite (fmdom' (charToDecomposition data) - set path)"
    by simp
  have "ch \<in> fmdom' (charToDecomposition data) - set path"
    using notin entry by (simp add: fmdom'I)
  then have "fmdom' (charToDecomposition data) - set (path @ [ch])
               \<subset> fmdom' (charToDecomposition data) - set path"
    by auto
  then show "((component, data, path @ [ch]), ch, data, path)
       \<in> measure (\<lambda>(ch, data, path).
            card (fmdom' (charToDecomposition data) - set path))"
    using fin by (simp add: psubset_card_mono)
qed

declare decomposeToLeaves.simps [simp del]

definition getComponentsForWord :: "jsstring \<Rightarrow> GameData \<Rightarrow> jsstring list" where
  "getComponentsForWord word data =
     (let isEntityReference = (startsWith word (ascii ''&'') \<and> endsWith word (ascii '';''));
          isSingleChar = (length word = 1 \<or> length (codePoints word) = 1)
      in if isEntityReference \<or> isSingleChar then decomposeToLeaves word data []
         else concat (map (\<lambda>char. decomposeToLeaves char data []) (codePoints word)))"

section \<open>Containment check\<close>

text \<open>
  A \<open>Map<string, number>\<close> keeps its keys in insertion order: an association list
  updated in place (\<open>AList.update\<close>). \<open>(m.get(c) || 0)\<close> reads a missing key as 0.
\<close>

definition getOrZero :: "(jsstring \<times> nat) list \<Rightarrow> jsstring \<Rightarrow> nat" where
  "getOrZero m c = (case map_of m c of None \<Rightarrow> 0 | Some k \<Rightarrow> k)"

definition countOccurrences :: "jsstring list \<Rightarrow> (jsstring \<times> nat) list" where
  "countOccurrences xs = fold (\<lambda>char m. AList.update char (getOrZero m char + 1) m) xs []"

definition hasEnoughComponents :: "jsstring list \<Rightarrow> jsstring list \<Rightarrow> GameData \<Rightarrow> bool" where
  "hasEnoughComponents selectedChars requiredComponents data =
     (let selectedLeafComponents = concat (map (\<lambda>char. decomposeToLeaves char data []) selectedChars);
          selectedCounts = countOccurrences selectedLeafComponents;
          requiredCounts = countOccurrences requiredComponents
      in list_all (\<lambda>(char, requiredCount). \<not> getOrZero selectedCounts char < requiredCount)
           requiredCounts)"

section \<open>Combination finder\<close>

text \<open>
  The subset loop runs \<open>i\<close> from 1 while \<open>i < (1 << n)\<close> and tests \<open>i & (1 << j)\<close>;
  both shifts are 32-bit: the shift count is taken modulo 32 and the result is signed.
\<close>

definition shl1 :: "nat \<Rightarrow> 32 word" where
  "shl1 n = push_bit (n mod 32) 1"

definition subsetOfMask :: "jsstring list \<Rightarrow> int \<Rightarrow> jsstring list" where
  "subsetOfMask selectedChars i =
     map (\<lambda>j. selectedChars ! j)
       (filter (\<lambda>j. and (word_of_int i) (shl1 j) \<noteq> 0) [0..<length selectedChars])"

text \<open>\<open>allCombinations.add(char)\<close> on a \<open>Set\<close>, which keeps insertion order.\<close>

definition setAdd :: "jsstring \<Rightarrow> jsstring list \<Rightarrow> jsstring list" where
  "setAdd c acc = (if c \<in> set acc then acc else acc @ [c])"

definition checkSubset :: "GameData \<Rightarrow> jsstring list \<Rightarrow> jsstring list \<Rightarrow> jsstring list" where
  "checkSubset data chars allCombinations =
     (if length chars = 0 then allCombinations
      else case fmlookup (componentsToChars data) (join [] (sort chars)) of
             None \<Rightarrow> allCombinations
           | Some matches \<Rightarrow>
               fold (\<lambda>char acc.
                       if hasEnoughComponents chars (getComponentsForWord char data) data
                       then setAdd char acc else acc)
                 matches allCombinations)"

definition findPossibleCombinations :: "Card list \<Rightarrow> GameData \<Rightarrow> jsstring list" where
  "findPossibleCombinations selectedCards data =
     (if length selectedCards = 0 then []
      else let selectedChars = map character selectedCards;
               n = length selectedChars
           in fold (\<lambda>i acc. checkSubset data (subsetOfMask selectedChars i) acc)
                [1..sint (shl1 n) - 1] [])"

section \<open>Hint search\<close>

text \<open>
  \<open>isPartOfDecomposition\<close> recurses into every component of the target with no record of
  the symbols already visited, so it need not return: the result is an option, \<open>None\<close>
  standing for a call that never returns. \<open>forSome\<close> is its \<open>for\<close> loop, which returns
  true at the first component whose recursive call does.
\<close>

fun forSome :: "('a \<Rightarrow> bool option) \<Rightarrow> 'a list \<Rightarrow> bool option" where
  "forSome f [] = Some False"
| "forSome f (x # xs) = Option.bind (f x) (\<lambda>b. if b then Some True else forSome f xs)"

lemma forSome_mono [partial_function_mono]:
  assumes "\<And>x. mono_option (\<lambda>f. g f x)"
  shows "mono_option (\<lambda>f. forSome (g f) xs)"
proof (induction xs)
  case Nil
  show ?case by (simp add: option.const_mono)
next
  case (Cons x xs)
  show ?case
    unfolding forSome.simps
    by (rule bind_mono, rule assms, rule if_mono, rule option.const_mono, rule Cons.IH)
qed

partial_function (option) isPartOfDecomposition ::
    "jsstring \<Rightarrow> jsstring \<Rightarrow> GameData \<Rightarrow> bool option" where
  "isPartOfDecomposition char target data =
     (case fmlookup (charToDecomposition data) target of
        None \<Rightarrow> Some False
      | Some targetDecomp \<Rightarrow>
          if char \<in> set (components targetDecomp) then Some True
          else forSome (\<lambda>component. isPartOfDecomposition char component data)
                 (components targetDecomp))"

declare isPartOfDecomposition.simps [code]

text \<open>\<open>componentsToCharsMap[sortedKey] || []\<close> for the characters of a group of cards.\<close>

definition possibleResults :: "GameData \<Rightarrow> jsstring list \<Rightarrow> jsstring list" where
  "possibleResults data selectedChars =
     (case fmlookup (componentsToChars data) (join [] (sort selectedChars)) of
        None \<Rightarrow> []
      | Some rs \<Rightarrow> rs)"

text \<open>The body of the loop over \<open>possibleResults\<close>: the steps pushed for one candidate.\<close>

definition stepsForResult ::
    "jsstring \<Rightarrow> GameData \<Rightarrow> Card list \<Rightarrow> jsstring \<Rightarrow> Step list option" where
  "stepsForResult targetWord data grp res =
     (let requiredComponents = getComponentsForWord res data;
          selectedChars = map character grp
      in if hasEnoughComponents selectedChars requiredComponents data then
           (let isTarget = (res = targetWord)
            in Option.bind
                 (if \<not> isTarget then isPartOfDecomposition res targetWord data else Some False)
                 (\<lambda>isIntermediate.
                    Some (if isTarget \<or> isIntermediate
                          then [\<lparr>stepCardIds = map cardId grp, result = res,
                                 leadsToTarget = True\<rparr>]
                          else [])))
         else Some [])"

definition stepsForGroup :: "jsstring \<Rightarrow> GameData \<Rightarrow> Card list \<Rightarrow> Step list option" where
  "stepsForGroup targetWord data grp =
     map_option concat
       (those (map (stepsForResult targetWord data grp)
                 (possibleResults data (map character grp))))"

text \<open>The index loops \<open>i < j\<close> and \<open>i < j < k\<close> over the cards.\<close>

definition pairsOf :: "Card list \<Rightarrow> Card list list" where
  "pairsOf cards =
     concat (map (\<lambda>i. map (\<lambda>j. [cards ! i, cards ! j]) [i + 1..<length cards])
               [0..<length cards])"

definition triplesOf :: "Card list \<Rightarrow> Card list list" where
  "triplesOf cards =
     concat (map (\<lambda>i. concat (map (\<lambda>j. map (\<lambda>k. [cards ! i, cards ! j, cards ! k])
                                        [j + 1..<length cards])
                                [i + 1..<length cards]))
               [0..<length cards])"

definition findValidNextSteps :: "jsstring \<Rightarrow> Card list \<Rightarrow> GameData \<Rightarrow> Step list option" where
  "findValidNextSteps targetWord cards data =
     Option.bind (those (map (stepsForGroup targetWord data) (pairsOf cards)))
       (\<lambda>fromPairs.
          Option.bind (those (map (stepsForGroup targetWord data) (triplesOf cards)))
            (\<lambda>fromTriples. Some (concat fromPairs @ concat fromTriples)))"

text \<open>The \<open>Map<string, string[]>\<close> from a character to the ids of the cards holding it.\<close>

definition charToCardIds :: "Card list \<Rightarrow> (jsstring \<times> jsstring list) list" where
  "charToCardIds cards =
     fold (\<lambda>card m.
             let m' = (if map_of m (character card) = None
                       then AList.update (character card) [] m else m)
             in AList.update (character card)
                  (the (map_of m' (character card)) @ [cardId card]) m')
       cards []"

text \<open>
  The comparator of \<open>validSteps.sort\<close> puts the steps whose result is the target first
  and leaves every other order alone (the sort is stable).
\<close>

definition stepRank :: "jsstring \<Rightarrow> Step \<Rightarrow> nat" where
  "stepRank targetWord step = (if result step = targetWord then 0 else 1)"

text \<open>
  One turn of the loop over the sorted steps; \<open>step.cardIds.sort()\<close> sorts the step's
  own array, which the hint then holds.
\<close>

definition takeHint :: "Step \<Rightarrow> Hint list \<times> jsstring list \<Rightarrow> Hint list \<times> jsstring list" where
  "takeHint step acc =
     (let hints = fst acc; usedCardPairs = snd acc;
          sortedIds = sort (stepCardIds step);
          pairKey = join (ascii '','') sortedIds
      in if pairKey \<notin> set usedCardPairs \<and> length hints < 3
         then (hints @ [\<lparr>cardIds = sortedIds, used = False, isAnswer = None\<rparr>],
               usedCardPairs @ [pairKey])
         else (hints, usedCardPairs))"

definition searchHints :: "jsstring \<Rightarrow> Card list \<Rightarrow> GameData \<Rightarrow> Hint list option" where
  "searchHints targetWord cards data =
     Option.bind (findValidNextSteps targetWord cards data)
       (\<lambda>validSteps.
          Some (fst (fold takeHint (sort_key (stepRank targetWord) validSteps) ([], []))))"

definition generateHints :: "jsstring \<Rightarrow> Card list \<Rightarrow> GameData \<Rightarrow> Hint list option" where
  "generateHints targetWord cards data =
     (case map_of (charToCardIds cards) targetWord of
        None \<Rightarrow> searchHints targetWord cards data
      | Some targetCardIds \<Rightarrow>
          if length targetCardIds > 0
          then Some [\<lparr>cardIds = [targetCardIds ! 0], used = False, isAnswer = Some True\<rparr>]
          else searchHints targetWord cards data)"

text \<open>
  Path membership as the specification words it: \<open>s\<close> is a path member of \<open>t\<close> if it is an
  immediate component of \<open>t\<close> or a path member of some immediate component of \<open>t\<close>.
\<close>

inductive pathMember :: "GameData \<Rightarrow> jsstring \<Rightarrow> jsstring \<Rightarrow> bool" for data where
  immediate: "fmlookup (charToDecomposition data) t = Some d \<Longrightarrow> s \<in> set (components d)
                \<Longrightarrow> pathMember data s t"
| deeper: "fmlookup (charToDecomposition data) t = Some d \<Longrightarrow> c \<in> set (components d)
                \<Longrightarrow> pathMember data s c \<Longrightarrow> pathMember data s t"


section \<open>Pool operations\<close>

text \<open>
  \<open>Date.now()\<close> is the parameter \<open>now\<close>. \<open>decomposeCard\<close> reads the clock once for
  every component card it builds: there \<open>now index\<close> is the reading for the card at
  \<open>index\<close>.
\<close>

definition combineCards ::
    "Card list \<Rightarrow> jsstring \<Rightarrow> Card list \<Rightarrow> GameData \<Rightarrow> nat \<Rightarrow> Card list" where
  "combineCards selectedCards targetChar availableCards data now =
     (let remaining = filter (\<lambda>card. find (\<lambda>sc. cardId sc = cardId card) selectedCards = None)
                        availableCards;
          newCard = \<lparr>cardId = targetChar @ ascii ''-combined-'' @ decimal now,
                     character = targetChar,
                     isLeaf = (\<not> truthyProperty (charToDecomposition data) targetChar)\<rparr>
      in remaining @ [newCard])"

definition decomposeCard ::
    "Card \<Rightarrow> Card list \<Rightarrow> GameData \<Rightarrow> (nat \<Rightarrow> nat) \<Rightarrow> Card list" where
  "decomposeCard crd availableCards data now =
     (case fmlookup (charToDecomposition data) (character crd) of
        None \<Rightarrow> availableCards
      | Some decomp \<Rightarrow>
          (let remaining = filter (\<lambda>c. cardId c \<noteq> cardId crd) availableCards;
               newCards = map (\<lambda>(comp, index).
                                 \<lparr>cardId = comp @ ascii ''-decomp-'' @ decimal index
                                             @ ascii ''-'' @ decimal (now index),
                                  character = comp,
                                  isLeaf = (fmlookup (charToDecomposition data) comp = None)\<rparr>)
                            (zip (components decomp) [0..<length (components decomp)])
           in remaining @ newCards))"

fun matchTargets :: "jsstring list \<Rightarrow> jsstring list \<Rightarrow> bool" where
  "matchTargets [] remainingChars = True"
| "matchTargets (targetChar # rest) remainingChars =
     (let index = indexOf remainingChars targetChar
      in if index = - 1 then False
         else matchTargets rest (splice1 remainingChars index))"

definition checkAnswer :: "Card list \<Rightarrow> jsstring \<Rightarrow> bool" where
  "checkAnswer availableCards targetWord =
     (let availableChars = map character availableCards;
          targetChars = map (\<lambda>u. [u]) targetWord
      in matchTargets targetChars availableChars)"

section \<open>The combine command\<close>

record GameState =
  currentLevel :: int
  roundsPerLevel :: int
  currentRound :: int
  totalRoundsCompleted :: int
  targetWord :: jsstring
  targetGloss :: jsstring
  availableCards :: "Card list"
  selectedCards :: "Card list"
  possibleCombinations :: "jsstring list"
  attemptsLeft :: int
  maxAttempts :: int
  gameOver :: bool
  won :: bool
  hints :: "Hint list"
  hintsUsed :: int
  totalHintsUsed :: int

record PersistedGameState = GameState +
  gameId :: jsstring
  createdAt :: jsstring
  lastModified :: jsstring

text \<open>
  \<open>cmdCombine\<close>, on the state that \<open>loadGame\<close> read from the game's file. The result
  pairs the command's outcome with the state the file holds afterwards: with nothing
  selected the command reports "No cards selected!" and returns before \<open>saveGame\<close>, so
  the file keeps the loaded state; otherwise \<open>saveGame\<close> writes the new state, stamped
  with the clock's ISO text \<open>isoNow\<close>.
\<close>

datatype error = EmptySelection

definition cmdCombine ::
    "PersistedGameState \<Rightarrow> jsstring \<Rightarrow> GameData \<Rightarrow> nat \<Rightarrow> jsstring
       \<Rightarrow> (error + unit) \<times> PersistedGameState" where
  "cmdCombine state targetChar data now isoNow =
     (if length (selectedCards state) = 0 then (Inl EmptySelection, state)
      else (Inr (),
            state\<lparr>availableCards :=
                    combineCards (selectedCards state) targetChar (availableCards state)
                      data now,
                  selectedCards := [],
                  possibleCombinations := [],
                  lastModified := isoNow\<rparr>))"

section \<open>Example data\<close>

text \<open>
  A small graph in the shape of the repository's tests, with ASCII letters for the
  symbols: \<open>M\<close> is made of \<open>D\<close> and \<open>Y\<close>; \<open>G\<close> is made of two \<open>K\<close>, each made of \<open>T\<close> and
  \<open>O\<close>. The reverse index also lists \<open>G\<close> under the single key \<open>K\<close>, an entry the
  containment check has to reject.
\<close>

definition mkDecomp :: "string \<Rightarrow> string list \<Rightarrow> jsstring \<times> CharacterDecomposition" where
  "mkDecomp c cs =
     (ascii c, \<lparr>decompCharacter = ascii c, ids = ascii (concat cs), components = map ascii cs\<rparr>)"

definition mkCard :: "string \<Rightarrow> string \<Rightarrow> bool \<Rightarrow> Card" where
  "mkCard i c l = \<lparr>cardId = ascii i, character = ascii c, isLeaf = l\<rparr>"

definition exampleData :: GameData where
  "exampleData = \<lparr>
     charToDecomposition = fmap_of_list
       [mkDecomp ''M'' [''D'', ''Y''],
        mkDecomp ''G'' [''K'', ''K''],
        mkDecomp ''K'' [''T'', ''O'']],
     componentsToChars = fmap_of_list
       [(ascii ''DY'', [ascii ''M'']),
        (ascii ''KK'', [ascii ''G'']),
        (ascii ''OT'', [ascii ''K'']),
        (ascii ''K'', [ascii ''G''])]\<rparr>"

text \<open>
  A graph with the cycle \<open>A\<close> to \<open>B\<close> to \<open>A\<close>, beside a symbol \<open>X\<close> made of \<open>P\<close> and \<open>Q\<close>.
\<close>

definition cyclicData :: GameData where
  "cyclicData = \<lparr>
     charToDecomposition = fmap_of_list
       [mkDecomp ''A'' [''B''],
        mkDecomp ''B'' [''A''],
        mkDecomp ''X'' [''P'', ''Q'']],
     componentsToChars = fmap_of_list [(ascii ''PQ'', [ascii ''X''])]\<rparr>"

definition exampleState :: PersistedGameState where
  "exampleState = \<lparr>
     currentLevel = 1, roundsPerLevel = 2, currentRound = 1, totalRoundsCompleted = 0,
     targetWord = ascii ''M'', targetGloss = ascii ''Word: M'',
     availableCards = [mkCard ''1'' ''D'' True, mkCard ''2'' ''Y'' True],
     selectedCards = [], possibleCombinations = [],
     attemptsLeft = 3, maxAttempts = 3, gameOver = False, won = False,
     hints = [], hintsUsed = 0, totalHintsUsed = 0,
     gameId = ascii ''demo'', createdAt = ascii ''t0'', lastModified = ascii ''t0''\<rparr>"

section \<open>Leaf reduction: cycle safety and duplicates\<close>

lemma decomposeToLeaves_on_path:
  "ch \<in> set path \<Longrightarrow> decomposeToLeaves ch data path = [ch]"
  by (simp add: decomposeToLeaves.simps)

lemma decomposeToLeaves_leaf:
  "fmlookup (charToDecomposition data) ch = None \<Longrightarrow> decomposeToLeaves ch data path = [ch]"
  by (simp add: decomposeToLeaves.simps)

lemma decomposeToLeaves_expand:
  "ch \<notin> set path \<Longrightarrow> fmlookup (charToDecomposition data) ch = Some decomp \<Longrightarrow>
   decomposeToLeaves ch data path =
     concat (map (\<lambda>component. decomposeToLeaves component data (path @ [ch]))
               (components decomp))"
  by (simp add: decomposeToLeaves.simps)

lemma count_list_concat_map:
  "count_list (concat (map f cs)) x = sum_list (map (\<lambda>c. count_list (f c) x) cs)"
  by (induction cs) simp_all

lemma count_list_concat_map_ge:
  "count_list cs k * count_list (f k) p \<le> count_list (concat (map f cs)) p"
  by (induction cs) (simp_all add: add_le_mono)

lemma exampleData_lookup:
  "fmlookup (charToDecomposition exampleData) (ascii ''G'') = Some (snd (mkDecomp ''G'' [''K'', ''K'']))"
  "fmlookup (charToDecomposition exampleData) (ascii ''K'') = Some (snd (mkDecomp ''K'' [''T'', ''O'']))"
  "fmlookup (charToDecomposition exampleData) (ascii ''O'') = None"
  by (simp_all add: exampleData_def mkDecomp_def ascii_def)

lemma cyclicData_lookup:
  "fmlookup (charToDecomposition cyclicData) (ascii ''A'') = Some (snd (mkDecomp ''A'' [''B'']))"
  "fmlookup (charToDecomposition cyclicData) (ascii ''B'') = Some (snd (mkDecomp ''B'' [''A'']))"
  by (simp_all add: cyclicData_def mkDecomp_def ascii_def)

text \<open>
  C3. \<open>decomposeToLeaves\<close> terminates on every graph, path and symbol: it is a total
  function whose recursion equation holds for all arguments, since every recursive call
  puts one more graph entry on the path (the termination proof above). A symbol already
  on the expansion path comes back as the singleton of itself, not expanded; and in a
  graph where \<open>A\<close> decomposes into \<open>[B]\<close> and \<open>B\<close> into \<open>[A]\<close>, reducing \<open>A\<close> from the
  empty path returns the one-element list \<open>[A]\<close>: the repeated ancestor, collapsed to a
  leaf.
\<close>

theorem decomposeToLeaves_cycle_safe:
  "decomposeToLeaves ch data path =
     (if ch \<in> set path then [ch]
      else case fmlookup (charToDecomposition data) ch of
             None \<Rightarrow> [ch]
           | Some decomp \<Rightarrow>
               concat (map (\<lambda>component. decomposeToLeaves component data (path @ [ch]))
                           (components decomp)))
   \<and> (ch \<in> set path \<longrightarrow> decomposeToLeaves ch data path = [ch])
   \<and> (fmlookup (charToDecomposition data) A = Some dA \<and> components dA = [B]
        \<and> fmlookup (charToDecomposition data) B = Some dB \<and> components dB = [A]
      \<longrightarrow> decomposeToLeaves A data [] = [A])"
proof (intro conjI impI)
  show "decomposeToLeaves ch data path =
     (if ch \<in> set path then [ch]
      else case fmlookup (charToDecomposition data) ch of
             None \<Rightarrow> [ch]
           | Some decomp \<Rightarrow>
               concat (map (\<lambda>component. decomposeToLeaves component data (path @ [ch]))
                           (components decomp)))"
    by (rule decomposeToLeaves.simps)
next
  assume "ch \<in> set path"
  then show "decomposeToLeaves ch data path = [ch]"
    by (rule decomposeToLeaves_on_path)
next
  assume h: "fmlookup (charToDecomposition data) A = Some dA \<and> components dA = [B]
        \<and> fmlookup (charToDecomposition data) B = Some dB \<and> components dB = [A]"
  have first: "decomposeToLeaves A data [] = decomposeToLeaves B data [A]"
    using h by (simp add: decomposeToLeaves_expand)
  show "decomposeToLeaves A data [] = [A]"
  proof (cases "B = A")
    case True
    then show ?thesis using first by (simp add: decomposeToLeaves_on_path)
  next
    case False
    then have "decomposeToLeaves B data [A] = decomposeToLeaves A data [A, B]"
      using h by (simp add: decomposeToLeaves_expand)
    then show ?thesis using first by (simp add: decomposeToLeaves_on_path)
  qed
qed

theorem decomposeToLeaves_cycle_safe_witness:
  "decomposeToLeaves (ascii ''B'') cyclicData [ascii ''A'', ascii ''B''] = [ascii ''B'']
   \<and> decomposeToLeaves (ascii ''A'') cyclicData [] = [ascii ''A'']"
  using decomposeToLeaves_cycle_safe
      [where ch = "ascii ''B''" and path = "[ascii ''A'', ascii ''B'']" and data = cyclicData
         and A = "ascii ''A''" and dA = "snd (mkDecomp ''A'' [''B''])"
         and B = "ascii ''B''" and dB = "snd (mkDecomp ''B'' [''A''])",
       THEN conjunct2]
    cyclicData_lookup
  by (simp add: mkDecomp_def)

text \<open>
  C4. For a symbol with a graph entry (and not on the path, as at every top-level call,
  whose path is empty) the result is the concatenation, in component order, of the
  reductions of its immediate components. Nothing is deduplicated: the multiplicity of
  every symbol in the result is the sum of its multiplicities in the components'
  reductions. So a leaf that occurs \<open>n\<close> times among the components occurs at least \<open>n\<close>
  times in the result (directly), and a leaf that occurs \<open>m\<close> times among the components
  of a component \<open>k\<close> that itself occurs \<open>n\<close> times occurs at least \<open>n * m\<close> times
  (transitively): twice, not once, for the symbol made of two copies of one part.
\<close>

theorem decomposeToLeaves_preserves_duplicates:
  "fmlookup (charToDecomposition data) s = Some d \<and> s \<notin> set path \<longrightarrow>
     decomposeToLeaves s data path
       = concat (map (\<lambda>c. decomposeToLeaves c data (path @ [s])) (components d))
     \<and> (\<forall>x. count_list (decomposeToLeaves s data path) x
              = sum_list (map (\<lambda>c. count_list (decomposeToLeaves c data (path @ [s])) x)
                           (components d)))
     \<and> (\<forall>p. fmlookup (charToDecomposition data) p = None \<longrightarrow>
              count_list (components d) p \<le> count_list (decomposeToLeaves s data path) p)
     \<and> (\<forall>k dk p. fmlookup (charToDecomposition data) k = Some dk \<and> k \<notin> set (path @ [s])
                   \<and> fmlookup (charToDecomposition data) p = None \<longrightarrow>
              count_list (components d) k * count_list (components dk) p
                \<le> count_list (decomposeToLeaves s data path) p)"
proof (intro impI)
  assume h: "fmlookup (charToDecomposition data) s = Some d \<and> s \<notin> set path"
  let ?sub = "\<lambda>c. decomposeToLeaves c data (path @ [s])"
  have unfold: "decomposeToLeaves s data path = concat (map ?sub (components d))"
    using h by (simp add: decomposeToLeaves_expand)
  have direct: "count_list cs p \<le> count_list (decomposeToLeaves t data pth) p"
    if "fmlookup (charToDecomposition data) p = None"
      and "decomposeToLeaves t data pth
             = concat (map (\<lambda>c. decomposeToLeaves c data (pth @ [t])) cs)"
    for cs p t pth
  proof -
    have "count_list cs p * count_list (decomposeToLeaves p data (pth @ [t])) p
            \<le> count_list (concat (map (\<lambda>c. decomposeToLeaves c data (pth @ [t])) cs)) p"
      by (rule count_list_concat_map_ge)
    then show ?thesis using that by (simp add: decomposeToLeaves_leaf)
  qed
  have transitive: "count_list (components d) k * count_list (components dk) p
                      \<le> count_list (decomposeToLeaves s data path) p"
    if k: "fmlookup (charToDecomposition data) k = Some dk \<and> k \<notin> set (path @ [s])
             \<and> fmlookup (charToDecomposition data) p = None"
    for k dk p
  proof -
    have "decomposeToLeaves k data (path @ [s])
            = concat (map (\<lambda>c. decomposeToLeaves c data ((path @ [s]) @ [k])) (components dk))"
      using k by (intro decomposeToLeaves_expand) simp_all
    then have "count_list (components dk) p \<le> count_list (?sub k) p"
      using k direct by blast
    then have "count_list (components d) k * count_list (components dk) p
                 \<le> count_list (components d) k * count_list (?sub k) p"
      by simp
    also have "\<dots> \<le> count_list (concat (map ?sub (components d))) p"
      by (rule count_list_concat_map_ge)
    finally show ?thesis using unfold by simp
  qed
  show "decomposeToLeaves s data path = concat (map ?sub (components d))
     \<and> (\<forall>x. count_list (decomposeToLeaves s data path) x
              = sum_list (map (\<lambda>c. count_list (?sub c) x) (components d)))
     \<and> (\<forall>p. fmlookup (charToDecomposition data) p = None \<longrightarrow>
              count_list (components d) p \<le> count_list (decomposeToLeaves s data path) p)
     \<and> (\<forall>k dk p. fmlookup (charToDecomposition data) k = Some dk \<and> k \<notin> set (path @ [s])
                   \<and> fmlookup (charToDecomposition data) p = None \<longrightarrow>
              count_list (components d) k * count_list (components dk) p
                \<le> count_list (decomposeToLeaves s data path) p)"
    using unfold direct transitive by (simp add: count_list_concat_map)
qed

theorem decomposeToLeaves_preserves_duplicates_witness:
  "fmlookup (charToDecomposition exampleData) (ascii ''G'')
     = Some (snd (mkDecomp ''G'' [''K'', ''K'']))
   \<and> ascii ''G'' \<notin> set []
   \<and> 2 \<le> count_list (decomposeToLeaves (ascii ''G'') exampleData []) (ascii ''O'')"
proof -
  have neq: "ascii ''K'' \<noteq> ascii ''G''"
    by (simp add: ascii_def)
  have notin: "ascii ''G'' \<notin> set []"
    by simp
  note every = decomposeToLeaves_preserves_duplicates
      [of exampleData "ascii ''G''" "snd (mkDecomp ''G'' [''K'', ''K''])" "[]",
       THEN mp, OF conjI [OF exampleData_lookup(1) notin],
       THEN conjunct2, THEN conjunct2, THEN conjunct2, rule_format,
       of "ascii ''K''" "snd (mkDecomp ''K'' [''T'', ''O''])" "ascii ''O''"]
  have "count_list (components (snd (mkDecomp ''G'' [''K'', ''K'']))) (ascii ''K'')
          * count_list (components (snd (mkDecomp ''K'' [''T'', ''O'']))) (ascii ''O'')
        \<le> count_list (decomposeToLeaves (ascii ''G'') exampleData []) (ascii ''O'')"
    using every exampleData_lookup neq by simp
  moreover have "count_list (components (snd (mkDecomp ''G'' [''K'', ''K'']))) (ascii ''K'') = 2"
    by (simp add: mkDecomp_def)
  moreover have "count_list (components (snd (mkDecomp ''K'' [''T'', ''O'']))) (ascii ''O'') = 1"
    by (simp add: mkDecomp_def ascii_def)
  ultimately show ?thesis using exampleData_lookup by simp
qed

section \<open>Containment check and combination finder\<close>

lemma getOrZero_update:
  "getOrZero (AList.update k v m) c = (if c = k then v else getOrZero m c)"
  by (simp add: getOrZero_def update_conv)

lemma fold_count_getOrZero:
  "getOrZero (fold (\<lambda>char m. AList.update char (getOrZero m char + 1) m) xs m) c
     = getOrZero m c + count_list xs c"
  by (induction xs arbitrary: m) (simp_all add: getOrZero_update)

lemma fold_count_keys:
  "fst ` set (fold (\<lambda>char m. AList.update char (getOrZero m char + 1) m) xs m)
     = fst ` set m \<union> set xs"
  by (induction xs arbitrary: m) (auto simp: dom_update)

lemma fold_count_distinct:
  "distinct (map fst m) \<Longrightarrow>
   distinct (map fst (fold (\<lambda>char m. AList.update char (getOrZero m char + 1) m) xs m))"
  by (induction xs arbitrary: m) (simp_all add: distinct_update)

lemma getOrZero_countOccurrences: "getOrZero (countOccurrences xs) c = count_list xs c"
  unfolding countOccurrences_def by (subst fold_count_getOrZero) (simp add: getOrZero_def)

lemma countOccurrences_entry:
  "(c, k) \<in> set (countOccurrences xs) \<longleftrightarrow> c \<in> set xs \<and> k = count_list xs c"
proof -
  have d: "distinct (map fst (countOccurrences xs))"
    unfolding countOccurrences_def by (rule fold_count_distinct) simp
  have keys: "fst ` set (countOccurrences xs) = set xs"
    unfolding countOccurrences_def by (subst fold_count_keys) simp
  show ?thesis
  proof
    assume a: "(c, k) \<in> set (countOccurrences xs)"
    then have "map_of (countOccurrences xs) c = Some k"
      using d by simp
    then have "getOrZero (countOccurrences xs) c = k"
      by (simp add: getOrZero_def)
    moreover have "c \<in> set xs"
      using a keys by force
    ultimately show "c \<in> set xs \<and> k = count_list xs c"
      by (simp add: getOrZero_countOccurrences)
  next
    assume a: "c \<in> set xs \<and> k = count_list xs c"
    then have "c \<in> fst ` set (countOccurrences xs)"
      using keys by simp
    then obtain k' where k': "(c, k') \<in> set (countOccurrences xs)"
      by force
    then have "map_of (countOccurrences xs) c = Some k'"
      using d by simp
    then have "getOrZero (countOccurrences xs) c = k'"
      by (simp add: getOrZero_def)
    then have "k' = k"
      using a by (simp add: getOrZero_countOccurrences)
    then show "(c, k) \<in> set (countOccurrences xs)"
      using k' by simp
  qed
qed

text \<open>The containment check decides containment of multisets of leaves.\<close>

lemma hasEnoughComponents_iff:
  "hasEnoughComponents selectedChars requiredComponents data \<longleftrightarrow>
     (\<forall>c \<in> set requiredComponents.
        count_list requiredComponents c
          \<le> count_list (concat (map (\<lambda>char. decomposeToLeaves char data []) selectedChars)) c)"
  unfolding hasEnoughComponents_def Let_def list_all_iff
  by (auto simp: countOccurrences_entry getOrZero_countOccurrences not_less)

lemma count_le_iff_mset:
  "(\<forall>c \<in> set xs. count_list xs c \<le> count_list ys c) \<longleftrightarrow> mset xs \<subseteq># mset ys"
proof
  assume a: "\<forall>c \<in> set xs. count_list xs c \<le> count_list ys c"
  show "mset xs \<subseteq># mset ys"
  proof (rule mset_subset_eqI)
    fix a'
    show "count (mset xs) a' \<le> count (mset ys) a'"
      using a by (cases "a' \<in> set xs") (simp_all add: count_mset count_list_0_iff)
  qed
next
  assume sub: "mset xs \<subseteq># mset ys"
  show "\<forall>c \<in> set xs. count_list xs c \<le> count_list ys c"
  proof
    fix c
    have "count (mset xs) c \<le> count (mset ys) c"
      using sub by (rule mset_subset_eq_count)
    then show "count_list xs c \<le> count_list ys c"
      by (simp add: count_mset)
  qed
qed

lemma setAdd_set: "set (setAdd c acc) = insert c (set acc)"
  by (auto simp: setAdd_def)

lemma fold_matches_mem:
  "c \<in> set (fold (\<lambda>char acc. if P char then setAdd char acc else acc) matches acc) \<Longrightarrow>
     c \<in> set acc \<or> (c \<in> set matches \<and> P c)"
proof (induction matches arbitrary: acc)
  case Nil
  then show ?case by simp
next
  case (Cons m matches)
  show ?case
  proof (cases "P m")
    case True
    with Cons.prems
    have "c \<in> set (fold (\<lambda>char acc. if P char then setAdd char acc else acc) matches
                      (setAdd m acc))"
      by simp
    from Cons.IH [OF this] show ?thesis
      using True by (auto simp: setAdd_set)
  next
    case False
    with Cons.prems
    have "c \<in> set (fold (\<lambda>char acc. if P char then setAdd char acc else acc) matches acc)"
      by simp
    from Cons.IH [OF this] show ?thesis
      by auto
  qed
qed

lemma checkSubset_mem:
  "c \<in> set (checkSubset data chars acc) \<Longrightarrow>
     c \<in> set acc \<or>
     (chars \<noteq> [] \<and> c \<in> set (possibleResults data chars)
       \<and> hasEnoughComponents chars (getComponentsForWord c data) data)"
  unfolding checkSubset_def possibleResults_def
  by (auto split: if_splits option.splits dest!: fold_matches_mem)

lemma fold_checkSubset_mem:
  "c \<in> set (fold (\<lambda>i acc. checkSubset data (f i) acc) masks acc) \<Longrightarrow>
     c \<in> set acc \<or>
     (\<exists>i \<in> set masks. f i \<noteq> [] \<and> c \<in> set (possibleResults data (f i))
        \<and> hasEnoughComponents (f i) (getComponentsForWord c data) data)"
proof (induction masks arbitrary: acc)
  case Nil
  then show ?case by simp
next
  case (Cons m masks)
  from Cons.prems
  have "c \<in> set (fold (\<lambda>i acc. checkSubset data (f i) acc) masks (checkSubset data (f m) acc))"
    by simp
  from Cons.IH [OF this] show ?case
    using checkSubset_mem [of c data "f m" acc] by auto
qed

lemma subsetOfMask_mset: "mset (subsetOfMask xs i) \<subseteq># mset xs"
proof -
  have "mset (subsetOfMask xs i)
      = image_mset ((!) xs)
          (filter_mset (\<lambda>j. and (word_of_int i) (shl1 j) \<noteq> (0::32 word)) (mset [0..<length xs]))"
    by (simp add: subsetOfMask_def)
  also have "\<dots> \<subseteq># image_mset ((!) xs) (mset [0..<length xs])"
    by (rule image_mset_subseteq_mono) (rule multiset_filter_subset)
  also have "image_mset ((!) xs) (mset [0..<length xs]) = mset (map ((!) xs) [0..<length xs])"
    by simp
  also have "\<dots> = mset xs"
    by (simp add: map_nth)
  finally show ?thesis .
qed

lemma leaves_mono:
  assumes "mset S \<subseteq># mset T"
  shows "mset (concat (map f S)) \<subseteq># mset (concat (map f T))"
proof -
  have e: "\<And>xs. mset (concat (map f xs)) = (\<Sum>x\<in>#mset xs. mset (f x))"
    by (induct_tac xs) simp_all
  obtain R where "mset T = mset S + R"
    using assms by (metis mset_subset_eq_exists_conv)
  then show ?thesis
    by (simp add: e)
qed

text \<open>
  C1. Every symbol \<open>c\<close> in the list returned by \<open>findPossibleCombinations\<close> has a
  non-empty sub-collection \<open>S\<close> of the selected cards' symbols under whose key the
  reverse index lists \<open>c\<close> and which passes the containment check for the leaves \<open>c\<close>
  requires: every leaf of \<open>getComponentsForWord c\<close> occurs in the flattened leaf
  reduction of \<open>S\<close> at least as often as it is required. In particular, when the
  reduction of the whole selection holds some leaf fewer times than \<open>c\<close> requires it
  (one occurrence where two are required), \<open>c\<close> is not returned.
\<close>

theorem findPossibleCombinations_sound:
  "(c \<in> set (findPossibleCombinations sel data) \<longrightarrow>
      (\<exists>S. S \<noteq> [] \<and> mset S \<subseteq># mset (map character sel)
         \<and> c \<in> set (possibleResults data S)
         \<and> hasEnoughComponents S (getComponentsForWord c data) data
         \<and> (\<forall>x \<in> set (getComponentsForWord c data).
               count_list (getComponentsForWord c data) x
                 \<le> count_list (concat (map (\<lambda>s. decomposeToLeaves s data []) S)) x)))
   \<and> (count_list (concat (map (\<lambda>s. decomposeToLeaves s data []) (map character sel))) x
         < count_list (getComponentsForWord c data) x
       \<longrightarrow> c \<notin> set (findPossibleCombinations sel data))"
proof -
  have sound: "\<exists>S. S \<noteq> [] \<and> mset S \<subseteq># mset (map character sel)
         \<and> c \<in> set (possibleResults data S)
         \<and> hasEnoughComponents S (getComponentsForWord c data) data
         \<and> (\<forall>x \<in> set (getComponentsForWord c data).
               count_list (getComponentsForWord c data) x
                 \<le> count_list (concat (map (\<lambda>s. decomposeToLeaves s data []) S)) x)"
    if mem: "c \<in> set (findPossibleCombinations sel data)"
  proof -
    from mem have "c \<in> set (fold (\<lambda>i acc. checkSubset data (subsetOfMask (map character sel) i) acc)
                              [1..sint (shl1 (length (map character sel))) - 1] [])"
      by (simp add: findPossibleCombinations_def Let_def split: if_splits)
    from fold_checkSubset_mem [OF this]
    obtain i where i: "subsetOfMask (map character sel) i \<noteq> []"
        "c \<in> set (possibleResults data (subsetOfMask (map character sel) i))"
        "hasEnoughComponents (subsetOfMask (map character sel) i)
           (getComponentsForWord c data) data"
      by auto
    show ?thesis
    proof (intro exI [of _ "subsetOfMask (map character sel) i"] conjI)
      show "mset (subsetOfMask (map character sel) i) \<subseteq># mset (map character sel)"
        by (rule subsetOfMask_mset)
      show "\<forall>x \<in> set (getComponentsForWord c data).
               count_list (getComponentsForWord c data) x
                 \<le> count_list (concat (map (\<lambda>s. decomposeToLeaves s data [])
                                         (subsetOfMask (map character sel) i))) x"
        using i(3) by (simp only: hasEnoughComponents_iff)
    qed (use i in simp_all)
  qed
  have reject: "c \<notin> set (findPossibleCombinations sel data)"
    if short: "count_list (concat (map (\<lambda>s. decomposeToLeaves s data []) (map character sel))) x
                 < count_list (getComponentsForWord c data) x"
  proof
    assume "c \<in> set (findPossibleCombinations sel data)"
    from sound [OF this] obtain S where S: "mset S \<subseteq># mset (map character sel)"
        "\<forall>x \<in> set (getComponentsForWord c data).
               count_list (getComponentsForWord c data) x
                 \<le> count_list (concat (map (\<lambda>s. decomposeToLeaves s data []) S)) x"
      by blast
    have "x \<in> set (getComponentsForWord c data)"
      using short by (cases "x \<in> set (getComponentsForWord c data)") (simp_all add: count_list_0_iff)
    with S(2) have "count_list (getComponentsForWord c data) x
                 \<le> count_list (concat (map (\<lambda>s. decomposeToLeaves s data []) S)) x"
      by blast
    also have "\<dots> \<le> count_list (concat (map (\<lambda>s. decomposeToLeaves s data [])
                                          (map character sel))) x"
      using mset_subset_eq_count
              [OF leaves_mono [OF S(1), of "\<lambda>s. decomposeToLeaves s data []"], of x]
      by (simp only: count_mset)
    finally show False
      using short by simp
  qed
  show ?thesis
    using sound reject by blast
qed

theorem findPossibleCombinations_sound_witness:
  "ascii ''M'' \<in> set (findPossibleCombinations
                         [mkCard ''1'' ''D'' True, mkCard ''2'' ''Y'' True] exampleData)
   \<and> (\<exists>S. S \<noteq> [] \<and> mset S \<subseteq># mset [ascii ''D'', ascii ''Y'']
          \<and> ascii ''M'' \<in> set (possibleResults exampleData S)
          \<and> hasEnoughComponents S (getComponentsForWord (ascii ''M'') exampleData) exampleData)
   \<and> count_list (concat (map (\<lambda>s. decomposeToLeaves s exampleData [])
                            (map character [mkCard ''3'' ''K'' False]))) (ascii ''T'')
       < count_list (getComponentsForWord (ascii ''G'') exampleData) (ascii ''T'')
   \<and> ascii ''G'' \<in> set (possibleResults exampleData (map character [mkCard ''3'' ''K'' False]))
   \<and> ascii ''G'' \<notin> set (findPossibleCombinations [mkCard ''3'' ''K'' False] exampleData)"
proof -
  have found: "findPossibleCombinations [mkCard ''1'' ''D'' True, mkCard ''2'' ''Y'' True]
                 exampleData = [ascii ''M'']"
    by code_simp
  then have mem: "ascii ''M'' \<in> set (findPossibleCombinations
                         [mkCard ''1'' ''D'' True, mkCard ''2'' ''Y'' True] exampleData)"
    by simp
  have chars: "map character [mkCard ''1'' ''D'' True, mkCard ''2'' ''Y'' True]
                 = [ascii ''D'', ascii ''Y'']"
    by (simp add: mkCard_def)
  have held: "concat (map (\<lambda>s. decomposeToLeaves s exampleData [])
                            (map character [mkCard ''3'' ''K'' False]))
                = [ascii ''T'', ascii ''O'']"
    by code_simp
  have required: "getComponentsForWord (ascii ''G'') exampleData
                    = [ascii ''T'', ascii ''O'', ascii ''T'', ascii ''O'']"
    by code_simp
  have neq: "ascii ''O'' \<noteq> ascii ''T''"
    by (simp add: ascii_def)
  have short: "count_list (concat (map (\<lambda>s. decomposeToLeaves s exampleData [])
                            (map character [mkCard ''3'' ''K'' False]))) (ascii ''T'')
       < count_list (getComponentsForWord (ascii ''G'') exampleData) (ascii ''T'')"
    unfolding held required using neq by simp
  have listed: "possibleResults exampleData (map character [mkCard ''3'' ''K'' False])
                  = [ascii ''G'']"
    by code_simp
  from findPossibleCombinations_sound
         [of "ascii ''M''" "[mkCard ''1'' ''D'' True, mkCard ''2'' ''Y'' True]" exampleData,
          THEN conjunct1, THEN mp, OF mem]
  have ex: "\<exists>S. S \<noteq> [] \<and> mset S \<subseteq># mset [ascii ''D'', ascii ''Y'']
          \<and> ascii ''M'' \<in> set (possibleResults exampleData S)
          \<and> hasEnoughComponents S (getComponentsForWord (ascii ''M'') exampleData) exampleData"
    unfolding chars by blast
  from findPossibleCombinations_sound
         [of "ascii ''G''" "[mkCard ''3'' ''K'' False]" exampleData "ascii ''T''",
          THEN conjunct2, THEN mp, OF short]
  have rejected: "ascii ''G'' \<notin> set (findPossibleCombinations [mkCard ''3'' ''K'' False]
                                        exampleData)" .
  have inIndex: "ascii ''G''
                   \<in> set (possibleResults exampleData (map character [mkCard ''3'' ''K'' False]))"
    unfolding listed by simp
  show ?thesis
    by (intro conjI mem ex short inIndex rejected)
qed

section \<open>Pool operations: combine, decompose, submit\<close>

lemma find_None_ids: "(find (\<lambda>sc. cardId sc = cardId crd) sel = None) \<longleftrightarrow> cardId crd \<notin> cardId ` set sel"
  unfolding find_None_iff image_iff by metis

text \<open>
  \<open>combineCards\<close> checks nothing: for every selection, pool and target \<open>t\<close> it returns
  the cards whose ids are not selected, as they are and in their order, followed by one
  new card that holds \<open>t\<close>; the new card is a leaf iff \<open>charToDecomposition[t]\<close> is
  falsy.
\<close>

lemma combineCards_filter:
  "combineCards sel t avail data now
     = filter (\<lambda>c. cardId c \<notin> cardId ` set sel) avail
       @ [\<lparr>cardId = t @ ascii ''-combined-'' @ decimal now, character = t,
           isLeaf = (\<not> truthyProperty (charToDecomposition data) t)\<rparr>]"
  by (simp add: combineCards_def find_None_ids)

lemma combineCards_isLeaf:
  "isLeaf (last (combineCards sel t avail data now))
     \<longleftrightarrow> fmlookup (charToDecomposition data) t = None \<and> t \<notin> set objectPrototypeNames"
  by (simp add: combineCards_filter truthyProperty_def)

lemma decimal_digit: "n < 10 \<Longrightarrow> decimal n = [0x30 + of_nat n]"
  by (simp add: decimal.simps)

text \<open>
  C10. The flag of the new card is to be true iff the target has no graph entry. The
  target \<open>constructor\<close> has no entry in the graph, and it need not be producible from
  the selection, yet the card that \<open>combineCards\<close> appends for it has \<open>isLeaf\<close> false:
  \<open>!data.charToDecomposition[targetChar]\<close> finds the property inherited from
  \<open>Object.prototype\<close>. The rest of the pool is as expected: the selected card is gone,
  the other card is unchanged.
\<close>

theorem combineCards_inherited_name:
  "fmlookup (charToDecomposition exampleData) (ascii ''constructor'') = None
   \<and> ascii ''constructor''
       \<notin> set (findPossibleCombinations [mkCard ''1'' ''D'' True] exampleData)
   \<and> combineCards [mkCard ''1'' ''D'' True] (ascii ''constructor'')
       [mkCard ''1'' ''D'' True, mkCard ''2'' ''Y'' True] exampleData 7
     = [mkCard ''2'' ''Y'' True,
        \<lparr>cardId = ascii ''constructor-combined-7'', character = ascii ''constructor'',
          isLeaf = False\<rparr>]"
proof -
  have none: "findPossibleCombinations [mkCard ''1'' ''D'' True] exampleData = []"
    by code_simp
  have absent: "fmlookup (charToDecomposition exampleData) (ascii ''constructor'') = None"
    by (simp add: exampleData_def mkDecomp_def ascii_def)
  have inherited: "truthyProperty (charToDecomposition exampleData) (ascii ''constructor'')"
    by (simp add: truthyProperty_def objectPrototypeNames_def)
  have combined: "combineCards [mkCard ''1'' ''D'' True] (ascii ''constructor'')
       [mkCard ''1'' ''D'' True, mkCard ''2'' ''Y'' True] exampleData 7
     = [mkCard ''2'' ''Y'' True,
        \<lparr>cardId = ascii ''constructor-combined-7'', character = ascii ''constructor'',
          isLeaf = False\<rparr>]"
    unfolding combineCards_filter using inherited
    by (simp add: decimal_digit mkCard_def ascii_def)
  have unlisted: "ascii ''constructor''
       \<notin> set (findPossibleCombinations [mkCard ''1'' ''D'' True] exampleData)"
    unfolding none by simp
  show ?thesis
    by (intro conjI absent unlisted combined)
qed

text \<open>
  C9. The combine command with an empty selection fails with \<open>EmptySelection\<close> and the
  stored state, the card pool with it, stays as it was. The command succeeds exactly
  when at least one card is selected, and then the stored pool is the result of
  \<open>combineCards\<close>.
\<close>

theorem cmdCombine_empty_selection:
  "(selectedCards st = [] \<longrightarrow> cmdCombine st t data now stamp = (Inl EmptySelection, st))
   \<and> (fst (cmdCombine st t data now stamp) = Inr () \<longleftrightarrow> selectedCards st \<noteq> [])
   \<and> (selectedCards st \<noteq> [] \<longrightarrow>
        availableCards (snd (cmdCombine st t data now stamp))
          = combineCards (selectedCards st) t (availableCards st) data now)"
  by (simp add: cmdCombine_def)

theorem cmdCombine_empty_selection_witness:
  "cmdCombine exampleState (ascii ''M'') exampleData 5 (ascii ''t1'')
     = (Inl EmptySelection, exampleState)
   \<and> fst (cmdCombine (exampleState\<lparr>selectedCards := availableCards exampleState\<rparr>)
            (ascii ''M'') exampleData 5 (ascii ''t1'')) = Inr ()
   \<and> map character
        (availableCards
           (snd (cmdCombine (exampleState\<lparr>selectedCards := availableCards exampleState\<rparr>)
                   (ascii ''M'') exampleData 5 (ascii ''t1''))))
       = [ascii ''M'']"
proof -
  have empty: "selectedCards exampleState = []"
    by (simp add: exampleState_def)
  have chosen: "selectedCards (exampleState\<lparr>selectedCards := availableCards exampleState\<rparr>) \<noteq> []"
    by (simp add: exampleState_def)
  have pool: "map character
                (combineCards
                   (selectedCards (exampleState\<lparr>selectedCards := availableCards exampleState\<rparr>))
                   (ascii ''M'')
                   (availableCards (exampleState\<lparr>selectedCards := availableCards exampleState\<rparr>))
                   exampleData 5)
              = [ascii ''M'']"
    by (simp add: exampleState_def combineCards_def mkCard_def ascii_def)
  show ?thesis
    using cmdCombine_empty_selection
            [of exampleState "ascii ''M''" exampleData 5 "ascii ''t1''"]
          cmdCombine_empty_selection
            [of "exampleState\<lparr>selectedCards := availableCards exampleState\<rparr>"
                "ascii ''M''" exampleData 5 "ascii ''t1''"]
          empty chosen pool
    by simp
qed

lemma filter_other_ids:
  "distinct (map f xs) \<Longrightarrow> c \<in> set xs \<Longrightarrow> filter (\<lambda>x. f x \<noteq> f c) xs = remove1 c xs"
proof (induction xs)
  case Nil
  then show ?case by simp
next
  case (Cons y ys)
  show ?case
  proof (cases "y = c")
    case True
    have "\<forall>x \<in> set ys. f x \<noteq> f c"
      using Cons.prems(1) True by (metis distinct.simps(2) image_eqI list.simps(9) set_map)
    then have "filter (\<lambda>x. f x \<noteq> f c) ys = ys"
      by (simp add: filter_id_conv)
    then show ?thesis using True by simp
  next
    case False
    then have cin: "c \<in> set ys" using Cons.prems(2) by simp
    then have "f y \<noteq> f c" using Cons.prems(1) by auto
    moreover have "filter (\<lambda>x. f x \<noteq> f c) ys = remove1 c ys"
      using Cons.IH Cons.prems(1) cin by simp
    ultimately show ?thesis using False by simp
  qed
qed

lemma decomposeCard_two:
  assumes "fmlookup (charToDecomposition data) (character c) = Some d"
    and "components d = [p1, p2]"
  shows "decomposeCard c pool data now
           = filter (\<lambda>x. cardId x \<noteq> cardId c) pool
             @ [\<lparr>cardId = p1 @ ascii ''-decomp-'' @ decimal 0 @ ascii ''-'' @ decimal (now 0),
                  character = p1, isLeaf = (fmlookup (charToDecomposition data) p1 = None)\<rparr>,
                \<lparr>cardId = p2 @ ascii ''-decomp-'' @ decimal 1 @ ascii ''-'' @ decimal (now 1),
                  character = p2, isLeaf = (fmlookup (charToDecomposition data) p2 = None)\<rparr>]"
proof -
  have "[0..<length [p1, p2]] = [0, 1]"
    by (simp add: upt_rec)
  then show ?thesis
    using assms by (simp add: decomposeCard_def)
qed

text \<open>
  C8. Take a pool of cards with pairwise distinct ids that holds a card \<open>c\<close> whose symbol
  has the two components \<open>[p1, p2]\<close> (so the card's \<open>isLeaf\<close> flag is false), and let the
  ids the decomposition gives the two component cards be new to the pool. Then
  \<open>decomposeCard\<close> replaces \<open>c\<close> by the two component cards \<open>n1\<close>, \<open>n2\<close>, and
  \<open>combineCards\<close> on exactly these two with the symbol of \<open>c\<close> as target gives back the
  other cards, unchanged and in their order, followed by one card that holds the symbol
  of \<open>c\<close>: as a collection of symbols with their flags, that is, up to card identifiers,
  the pool is the original one.
\<close>

theorem decompose_combine_round_trip:
  assumes held: "c \<in> set pool"
    and entry: "fmlookup (charToDecomposition data) (character c) = Some d"
    and two: "components d = [p1, p2]"
    and flag: "isLeaf c = False"
    and unique: "distinct (map cardId pool)"
    and n1: "n1 = \<lparr>cardId = p1 @ ascii ''-decomp-'' @ decimal 0 @ ascii ''-'' @ decimal (now1 0),
                   character = p1, isLeaf = (fmlookup (charToDecomposition data) p1 = None)\<rparr>"
    and n2: "n2 = \<lparr>cardId = p2 @ ascii ''-decomp-'' @ decimal 1 @ ascii ''-'' @ decimal (now1 1),
                   character = p2, isLeaf = (fmlookup (charToDecomposition data) p2 = None)\<rparr>"
    and fresh: "cardId n1 \<notin> cardId ` set pool" "cardId n2 \<notin> cardId ` set pool"
  shows "decomposeCard c pool data now1 = filter (\<lambda>x. cardId x \<noteq> cardId c) pool @ [n1, n2]
     \<and> combineCards [n1, n2] (character c) (decomposeCard c pool data now1) data now2
         = filter (\<lambda>x. cardId x \<noteq> cardId c) pool
           @ [\<lparr>cardId = character c @ ascii ''-combined-'' @ decimal now2,
                character = character c, isLeaf = False\<rparr>]
     \<and> mset (map (\<lambda>x. (character x, isLeaf x))
              (combineCards [n1, n2] (character c) (decomposeCard c pool data now1) data now2))
         = mset (map (\<lambda>x. (character x, isLeaf x)) pool)"
proof -
  let ?others = "filter (\<lambda>x. cardId x \<noteq> cardId c) pool"
  have dec: "decomposeCard c pool data now1 = ?others @ [n1, n2]"
    unfolding n1 n2 using entry two by (rule decomposeCard_two)
  have f1: "\<And>x. x \<in> set pool \<Longrightarrow> cardId x \<noteq> cardId n1"
    using fresh(1) by (metis image_eqI)
  have f2: "\<And>x. x \<in> set pool \<Longrightarrow> cardId x \<noteq> cardId n2"
    using fresh(2) by (metis image_eqI)
  have keep: "filter (\<lambda>x. cardId x \<notin> cardId ` set [n1, n2]) ?others = ?others"
    unfolding filter_id_conv by (simp add: f1 f2)
  have comb: "combineCards [n1, n2] (character c) (decomposeCard c pool data now1) data now2
         = ?others @ [\<lparr>cardId = character c @ ascii ''-combined-'' @ decimal now2,
                character = character c, isLeaf = False\<rparr>]"
    unfolding combineCards_filter dec using keep entry by (simp add: truthyProperty_def)
  have others: "?others = remove1 c pool"
    using unique held by (rule filter_other_ids)
  have "mset pool = add_mset c (mset (remove1 c pool))"
    using held by simp
  then have "image_mset (\<lambda>x. (character x, isLeaf x)) (mset pool)
               = image_mset (\<lambda>x. (character x, isLeaf x)) (add_mset c (mset (remove1 c pool)))"
    by (rule arg_cong)
  then have "mset (map (\<lambda>x. (character x, isLeaf x)) ?others) + {#(character c, isLeaf c)#}
               = mset (map (\<lambda>x. (character x, isLeaf x)) pool)"
    unfolding others by simp
  then have same: "mset (map (\<lambda>x. (character x, isLeaf x))
              (combineCards [n1, n2] (character c) (decomposeCard c pool data now1) data now2))
         = mset (map (\<lambda>x. (character x, isLeaf x)) pool)"
    unfolding comb using flag by simp
  show ?thesis
    using dec comb same by blast
qed

theorem decompose_combine_round_trip_witness:
  "decomposeCard (mkCard ''7'' ''M'' False)
     [mkCard ''7'' ''M'' False, mkCard ''8'' ''T'' True] exampleData (\<lambda>_. 5)
   = [mkCard ''8'' ''T'' True,
      \<lparr>cardId = ascii ''D-decomp-0-5'', character = ascii ''D'', isLeaf = True\<rparr>,
      \<lparr>cardId = ascii ''Y-decomp-1-5'', character = ascii ''Y'', isLeaf = True\<rparr>]
   \<and> combineCards
     [\<lparr>cardId = ascii ''D-decomp-0-5'', character = ascii ''D'', isLeaf = True\<rparr>,
      \<lparr>cardId = ascii ''Y-decomp-1-5'', character = ascii ''Y'', isLeaf = True\<rparr>]
     (ascii ''M'')
     (decomposeCard (mkCard ''7'' ''M'' False)
        [mkCard ''7'' ''M'' False, mkCard ''8'' ''T'' True] exampleData (\<lambda>_. 5))
     exampleData 6
   = [mkCard ''8'' ''T'' True,
      \<lparr>cardId = ascii ''M-combined-6'', character = ascii ''M'', isLeaf = False\<rparr>]
   \<and> mset (map (\<lambda>x. (character x, isLeaf x))
        (combineCards
          [\<lparr>cardId = ascii ''D-decomp-0-5'', character = ascii ''D'', isLeaf = True\<rparr>,
           \<lparr>cardId = ascii ''Y-decomp-1-5'', character = ascii ''Y'', isLeaf = True\<rparr>]
          (ascii ''M'')
          (decomposeCard (mkCard ''7'' ''M'' False)
             [mkCard ''7'' ''M'' False, mkCard ''8'' ''T'' True] exampleData (\<lambda>_. 5))
          exampleData 6))
     = mset (map (\<lambda>x. (character x, isLeaf x))
          [mkCard ''7'' ''M'' False, mkCard ''8'' ''T'' True])"
proof -
  let ?c = "mkCard ''7'' ''M'' False"
  let ?pool = "[mkCard ''7'' ''M'' False, mkCard ''8'' ''T'' True]"
  let ?n1 = "\<lparr>cardId = ascii ''D-decomp-0-5'', character = ascii ''D'', isLeaf = True\<rparr>"
  let ?n2 = "\<lparr>cardId = ascii ''Y-decomp-1-5'', character = ascii ''Y'', isLeaf = True\<rparr>"
  have held: "?c \<in> set ?pool"
    by simp
  have entry: "fmlookup (charToDecomposition exampleData) (character ?c)
                 = Some (snd (mkDecomp ''M'' [''D'', ''Y'']))"
    by (simp add: exampleData_def mkDecomp_def mkCard_def ascii_def)
  have two: "components (snd (mkDecomp ''M'' [''D'', ''Y''])) = [ascii ''D'', ascii ''Y'']"
    by (simp add: mkDecomp_def)
  have flag: "isLeaf ?c = False"
    by (simp add: mkCard_def)
  have unique: "distinct (map cardId ?pool)"
    by (simp add: mkCard_def ascii_def)
  have n1: "?n1 = \<lparr>cardId = ascii ''D'' @ ascii ''-decomp-'' @ decimal 0 @ ascii ''-''
                              @ decimal ((\<lambda>_. 5) 0),
                    character = ascii ''D'',
                    isLeaf = (fmlookup (charToDecomposition exampleData) (ascii ''D'') = None)\<rparr>"
    by (simp add: exampleData_def mkDecomp_def decimal_digit ascii_def)
  have n2: "?n2 = \<lparr>cardId = ascii ''Y'' @ ascii ''-decomp-'' @ decimal 1 @ ascii ''-''
                              @ decimal ((\<lambda>_. 5) 1),
                    character = ascii ''Y'',
                    isLeaf = (fmlookup (charToDecomposition exampleData) (ascii ''Y'') = None)\<rparr>"
    by (simp add: exampleData_def mkDecomp_def decimal_digit ascii_def)
  have fresh: "cardId ?n1 \<notin> cardId ` set ?pool" "cardId ?n2 \<notin> cardId ` set ?pool"
    by (simp_all add: mkCard_def ascii_def)
  have others: "filter (\<lambda>x. cardId x \<noteq> cardId ?c) ?pool = [mkCard ''8'' ''T'' True]"
    by (simp add: mkCard_def ascii_def)
  have new: "\<lparr>cardId = ascii ''M'' @ ascii ''-combined-'' @ decimal 6,
              character = ascii ''M'', isLeaf = False\<rparr>
             = \<lparr>cardId = ascii ''M-combined-6'', character = ascii ''M'', isLeaf = False\<rparr>"
    by (simp add: decimal_digit ascii_def)
  have chr: "character ?c = ascii ''M''"
    by (simp add: mkCard_def)
  note rt = decompose_combine_round_trip
              [where ?now1.0 = "\<lambda>_. 5" and ?now2.0 = 6, OF held entry two flag unique n1 n2 fresh,
               unfolded chr others new append_Cons append_Nil]
  show ?thesis
    by (rule rt)
qed

lemma indexOf_absent: "indexOf xs x = - 1 \<longleftrightarrow> x \<notin> set xs"
  by (simp add: indexOf_def)

lemma splice1_indexOf: "x \<in> set xs \<Longrightarrow> splice1 xs (indexOf xs x) = remove1 x xs"
proof (induction xs)
  case Nil
  then show ?case by simp
next
  case (Cons y ys)
  show ?case
  proof (cases "y = x")
    case True
    then show ?thesis by (simp add: indexOf_def splice1_def)
  next
    case False
    with Cons.prems have xin: "x \<in> set ys" by simp
    have suc: "\<And>n. nat (1 + int n) = Suc n" by simp
    from Cons.IH[OF xin] xin False show ?thesis
      by (simp add: indexOf_def splice1_def suc)
  qed
qed

lemma matchTargets_iff: "matchTargets ts remaining \<longleftrightarrow> mset ts \<subseteq># mset remaining"
proof (induction ts arbitrary: remaining)
  case Nil
  show ?case by simp
next
  case (Cons t ts)
  show ?case
  proof (cases "t \<in> set remaining")
    case True
    then have "matchTargets (t # ts) remaining = matchTargets ts (remove1 t remaining)"
      by (simp add: Let_def indexOf_absent splice1_indexOf)
    also have "\<dots> \<longleftrightarrow> mset ts \<subseteq># mset remaining - {#t#}"
      by (simp add: Cons.IH)
    also have "\<dots> \<longleftrightarrow> mset (t # ts) \<subseteq># mset remaining"
      using True by (simp add: insert_subset_eq_iff)
    finally show ?thesis .
  next
    case False
    then have "\<not> matchTargets (t # ts) remaining"
      by (simp add: Let_def indexOf_absent)
    moreover have "\<not> mset (t # ts) \<subseteq># mset remaining"
      using False by (auto dest: mset_subset_eq_insertD)
    ultimately show ?thesis by simp
  qed
qed

text \<open>
  What \<open>checkAnswer\<close> decides: the one-unit strings of the target word's UTF-16 code
  units, with their multiplicities, are among the symbols of the pool's cards, with
  theirs. Every code unit is matched to a card of its own, no card serves twice, no
  symbol is reduced to leaves, and cards left over do not matter.
\<close>

lemma checkAnswer_matching:
  "checkAnswer pool target \<longleftrightarrow> mset (map (\<lambda>u. [u]) target) \<subseteq># mset (map character pool)"
  by (simp add: checkAnswer_def matchTargets_iff)

lemma checkAnswer_two_characters:
  "checkAnswer [mkCard ''1'' ''M'' False, mkCard ''2'' ''D'' True, mkCard ''3'' ''T'' True]
     (ascii ''DM'')
   \<and> \<not> checkAnswer [mkCard ''1'' ''M'' False, mkCard ''2'' ''D'' True] (ascii ''MM'')"
  by code_simp

text \<open>
  C7. A target word that is one character is to be met by a pool card that holds
  exactly that character, symbol for symbol. The target of code point U+2696F is one
  character to the string iterator (\<open>codePoints\<close>, which \<open>getComponentsForWord\<close> uses),
  and the placeholder \<open>&CDP-8974;\<close> is one symbol to \<open>getComponentsForWord\<close>; in both
  cases the pool holds a card with exactly the target as its symbol, and \<open>checkAnswer\<close>
  is false: \<open>split('')\<close> cuts the target into its UTF-16 code units, and no card holds
  a single one of them.
\<close>

theorem checkAnswer_splits_symbol:
  "codePoints [0xD85A, 0xDD6F] = [[0xD85A, 0xDD6F]]
   \<and> character \<lparr>cardId = ascii ''1'', character = [0xD85A, 0xDD6F], isLeaf = True\<rparr>
       = [0xD85A, 0xDD6F]
   \<and> \<not> checkAnswer [\<lparr>cardId = ascii ''1'', character = [0xD85A, 0xDD6F], isLeaf = True\<rparr>]
         [0xD85A, 0xDD6F]
   \<and> startsWith (ascii ''&CDP-8974;'') (ascii ''&'')
   \<and> endsWith (ascii ''&CDP-8974;'') (ascii '';'')
   \<and> character (mkCard ''2'' ''&CDP-8974;'' True) = ascii ''&CDP-8974;''
   \<and> \<not> checkAnswer [mkCard ''2'' ''&CDP-8974;'' True] (ascii ''&CDP-8974;'')"
proof -
  have pair: "codePoints [0xD85A, 0xDD6F] = [[0xD85A, 0xDD6F]]"
    by code_simp
  have astral: "\<not> checkAnswer
                    [\<lparr>cardId = ascii ''1'', character = [0xD85A, 0xDD6F], isLeaf = True\<rparr>]
                    [0xD85A, 0xDD6F]"
    by code_simp
  have starts: "startsWith (ascii ''&CDP-8974;'') (ascii ''&'')"
    by code_simp
  have ends: "endsWith (ascii ''&CDP-8974;'') (ascii '';'')"
    by code_simp
  have entity: "\<not> checkAnswer [mkCard ''2'' ''&CDP-8974;'' True] (ascii ''&CDP-8974;'')"
    by code_simp
  have held: "character (mkCard ''2'' ''&CDP-8974;'' True) = ascii ''&CDP-8974;''"
    by (simp add: mkCard_def)
  have held': "character \<lparr>cardId = ascii ''1'', character = [0xD85A, 0xDD6F], isLeaf = True\<rparr>
                 = [0xD85A, 0xDD6F]"
    by simp
  show ?thesis
    by (intro conjI pair held' astral starts ends held entity)
qed

section \<open>Hint search: bound, answer short-circuit, path membership\<close>

lemma those_Some_map: "those xs = Some ys \<Longrightarrow> xs = map Some ys"
proof (induction xs arbitrary: ys)
  case Nil
  then show ?case by simp
next
  case (Cons x xs)
  from Cons.prems obtain y where x: "x = Some y"
    by (cases x) simp_all
  with Cons.prems obtain ys' where ys': "those xs = Some ys'" and ys: "ys = y # ys'"
    by (cases "those xs") simp_all
  from Cons.IH[OF ys'] x ys show ?case by simp
qed

lemma those_map_member:
  assumes "those (map f xs) = Some ys" and "y \<in> set ys"
  shows "\<exists>x \<in> set xs. f x = Some y"
proof -
  from assms(1) have "map f xs = map Some ys" by (rule those_Some_map)
  moreover have "Some y \<in> set (map Some ys)" using assms(2) by simp
  ultimately have "Some y \<in> set (map f xs)" by simp
  then show ?thesis by auto
qed


lemma stepsForResult_member:
  assumes "stepsForResult t data grp res = Some ss" and "s \<in> set ss"
  shows "stepCardIds s = map cardId grp \<and> result s = res
         \<and> hasEnoughComponents (map character grp) (getComponentsForWord res data) data
         \<and> (res = t \<or> isPartOfDecomposition res t data = Some True)"
  using assms unfolding stepsForResult_def Let_def
  by (auto split: if_splits bind_splits)

lemma stepsForGroup_member:
  assumes "stepsForGroup t data grp = Some ss" and "s \<in> set ss"
  shows "stepCardIds s = map cardId grp
         \<and> result s \<in> set (possibleResults data (map character grp))
         \<and> hasEnoughComponents (map character grp) (getComponentsForWord (result s) data) data
         \<and> (result s = t \<or> isPartOfDecomposition (result s) t data = Some True)"
proof -
  from assms(1) obtain sss where
      sss: "those (map (stepsForResult t data grp) (possibleResults data (map character grp))) = Some sss"
      and ss: "ss = concat sss"
    unfolding stepsForGroup_def by auto
  from assms(2) ss obtain ss' where ss': "ss' \<in> set sss" "s \<in> set ss'" by auto
  from those_map_member[OF sss ss'(1)] obtain res where
      res: "res \<in> set (possibleResults data (map character grp))"
           "stepsForResult t data grp res = Some ss'" by blast
  from stepsForResult_member[OF res(2) ss'(2)] res(1) show ?thesis by auto
qed

lemma findValidNextSteps_member:
  assumes "findValidNextSteps t cards data = Some ss" and "s \<in> set ss"
  shows "\<exists>grp \<in> set (pairsOf cards) \<union> set (triplesOf cards).
           stepCardIds s = map cardId grp
         \<and> result s \<in> set (possibleResults data (map character grp))
         \<and> hasEnoughComponents (map character grp) (getComponentsForWord (result s) data) data
         \<and> (result s = t \<or> isPartOfDecomposition (result s) t data = Some True)"
proof -
  from assms(1) obtain ps ts where
      ps: "those (map (stepsForGroup t data) (pairsOf cards)) = Some ps"
      and ts: "those (map (stepsForGroup t data) (triplesOf cards)) = Some ts"
      and ss: "ss = concat ps @ concat ts"
    unfolding findValidNextSteps_def by (auto split: bind_splits)
  from assms(2) ss consider ss' where "ss' \<in> set ps" "s \<in> set ss'"
    | ss' where "ss' \<in> set ts" "s \<in> set ss'" by auto
  then show ?thesis
  proof cases
    case 1
    from those_map_member[OF ps 1(1)] obtain grp where
      "grp \<in> set (pairsOf cards)" "stepsForGroup t data grp = Some ss'" by blast
    then show ?thesis using stepsForGroup_member[OF _ 1(2)] by blast
  next
    case 2
    from those_map_member[OF ts 2(1)] obtain grp where
      "grp \<in> set (triplesOf cards)" "stepsForGroup t data grp = Some ss'" by blast
    then show ?thesis using stepsForGroup_member[OF _ 2(2)] by blast
  qed
qed

lemma pairsOf_member:
  assumes "grp \<in> set (pairsOf cards)"
  shows "\<exists>i j. i < j \<and> j < length cards \<and> grp = [cards ! i, cards ! j]"
proof -
  from assms obtain i j where "Suc i \<le> j" "j < length cards" "grp = [cards ! i, cards ! j]"
    unfolding pairsOf_def by auto
  then show ?thesis
    by (intro exI [of _ i] exI [of _ j]) simp
qed

lemma triplesOf_member:
  assumes "grp \<in> set (triplesOf cards)"
  shows "\<exists>i j k. i < j \<and> j < k \<and> k < length cards \<and> grp = [cards ! i, cards ! j, cards ! k]"
proof -
  from assms obtain i j k where "Suc i \<le> j" "Suc j \<le> k" "k < length cards"
      "grp = [cards ! i, cards ! j, cards ! k]"
    unfolding triplesOf_def by auto
  then show ?thesis
    by (intro exI [of _ i] exI [of _ j] exI [of _ k]) simp
qed



lemma takeHint_member:
  "h \<in> set (fst (takeHint step acc)) \<Longrightarrow>
     h \<in> set (fst acc) \<or> h = \<lparr>cardIds = sort (stepCardIds step), used = False, isAnswer = None\<rparr>"
  by (auto simp: takeHint_def Let_def split: if_splits)

lemma fold_takeHint_member:
  "h \<in> set (fst (fold takeHint steps acc)) \<Longrightarrow>
     h \<in> set (fst acc)
     \<or> (\<exists>step \<in> set steps. h = \<lparr>cardIds = sort (stepCardIds step), used = False, isAnswer = None\<rparr>)"
proof (induction steps arbitrary: acc)
  case Nil
  then show ?case by simp
next
  case (Cons s steps)
  from Cons.prems have "h \<in> set (fst (fold takeHint steps (takeHint s acc)))" by simp
  from Cons.IH[OF this] show ?case using takeHint_member[of h s acc] by auto
qed

lemma charToCardIds_step:
  "map_of (let m' = (if map_of m (character crd) = None
                       then AList.update (character crd) [] m else m)
             in AList.update (character crd)
                  (the (map_of m' (character crd)) @ [cardId crd]) m') t
   = (if character crd = t
      then Some ((case map_of m t of None \<Rightarrow> [] | Some l \<Rightarrow> l) @ [cardId crd])
      else map_of m t)"
  by (auto simp: Let_def update_conv split: option.splits)

lemma charToCardIds_fold:
  "map_of (fold (\<lambda>card m.
             let m' = (if map_of m (character card) = None
                       then AList.update (character card) [] m else m)
             in AList.update (character card)
                  (the (map_of m' (character card)) @ [cardId card]) m') cards m) t
   = (if filter (\<lambda>c. character c = t) cards = [] then map_of m t
      else Some ((case map_of m t of None \<Rightarrow> [] | Some l \<Rightarrow> l)
                 @ map cardId (filter (\<lambda>c. character c = t) cards)))"
proof (induction cards arbitrary: m)
  case Nil
  show ?case by simp
next
  case (Cons c cards)
  show ?case
    by (simp only: fold_simps Cons.IH charToCardIds_step) (auto split: option.splits)
qed

lemma charToCardIds_lookup:
  "map_of (charToCardIds cards) t
   = (if filter (\<lambda>c. character c = t) cards = [] then None
      else Some (map cardId (filter (\<lambda>c. character c = t) cards)))"
  unfolding charToCardIds_def by (subst charToCardIds_fold) simp

lemma generateHints_answer:
  assumes "\<exists>c \<in> set cards. character c = t"
  shows "generateHints t cards data
           = Some [\<lparr>cardIds = [cardId (hd (filter (\<lambda>c. character c = t) cards))],
                    used = False, isAnswer = Some True\<rparr>]"
proof -
  from assms have ne: "filter (\<lambda>c. character c = t) cards \<noteq> []"
    by (simp add: filter_empty_conv)
  then have "map cardId (filter (\<lambda>c. character c = t) cards) ! 0
               = cardId (hd (filter (\<lambda>c. character c = t) cards))"
    by (cases "filter (\<lambda>c. character c = t) cards") simp_all
  then show ?thesis
    using ne by (simp add: generateHints_def charToCardIds_lookup)
qed

lemma generateHints_search:
  assumes "\<not> (\<exists>c \<in> set cards. character c = t)"
  shows "generateHints t cards data = searchHints t cards data"
proof -
  from assms have "filter (\<lambda>c. character c = t) cards = []"
    by (simp add: filter_empty_conv)
  then show ?thesis
    by (simp add: generateHints_def charToCardIds_lookup)
qed

lemma forSome_True: "forSome f xs = Some True \<Longrightarrow> \<exists>x \<in> set xs. f x = Some True"
  by (induction xs) (auto split: bind_splits if_splits)

lemma forSome_False: "forSome f xs = Some False \<Longrightarrow> \<forall>x \<in> set xs. f x = Some False"
  by (induction xs) (auto split: bind_splits if_splits)


lemma pathMember_cases:
  "pathMember data s t \<longleftrightarrow>
     (\<exists>d. fmlookup (charToDecomposition data) t = Some d \<and>
          (s \<in> set (components d) \<or> (\<exists>c \<in> set (components d). pathMember data s c)))"
proof
  assume "pathMember data s t"
  then show "\<exists>d. fmlookup (charToDecomposition data) t = Some d \<and>
          (s \<in> set (components d) \<or> (\<exists>c \<in> set (components d). pathMember data s c))"
    by cases blast+
next
  assume "\<exists>d. fmlookup (charToDecomposition data) t = Some d \<and>
          (s \<in> set (components d) \<or> (\<exists>c \<in> set (components d). pathMember data s c))"
  then show "pathMember data s t"
    by (blast intro: pathMember.intros)
qed

lemma isPartOfDecomposition_pathMember:
  assumes "isPartOfDecomposition s t data = Some b"
  shows "b = pathMember data s t"
proof (rule isPartOfDecomposition.raw_induct
         [where P = "\<lambda>char target data y. y = pathMember data char target", OF _ assms])
  fix f char target data y
  assume IH: "\<And>char target data y. f char target data = Some y
                \<Longrightarrow> y = pathMember data char target"
    and step: "(case fmlookup (charToDecomposition data) target of
        None \<Rightarrow> Some False
      | Some targetDecomp \<Rightarrow>
          if char \<in> set (components targetDecomp) then Some True
          else forSome (\<lambda>component. f char component data)
                 (components targetDecomp)) = Some y"
  show "y = pathMember data char target"
  proof (cases "fmlookup (charToDecomposition data) target")
    case None
    then show ?thesis using step by (subst pathMember_cases) simp
  next
    case (Some d)
    show ?thesis
    proof (cases "char \<in> set (components d)")
      case True
      then show ?thesis using step Some by (subst pathMember_cases) simp
    next
      case False
      with step Some
      have fs: "forSome (\<lambda>component. f char component data) (components d) = Some y"
        by simp
      show ?thesis
      proof (cases y)
        case True
        with fs have "forSome (\<lambda>component. f char component data) (components d) = Some True"
          by simp
        then obtain c where c: "c \<in> set (components d)" "f char c data = Some True"
          by (blast dest: forSome_True)
        then have "pathMember data char c" using IH by blast
        then show ?thesis using True Some c(1)
          by (subst pathMember_cases) auto
      next
        case F: False
        with fs have "forSome (\<lambda>component. f char component data) (components d) = Some False"
          by simp
        then have "\<forall>c \<in> set (components d). f char c data = Some False"
          by (rule forSome_False)
        then have "\<forall>c \<in> set (components d). \<not> pathMember data char c" using IH by blast
        then show ?thesis using F Some False
          by (subst pathMember_cases) auto
      qed
    qed
  qed
qed








lemma exampleData_hints:
  "generateHints (ascii ''G'')
     [mkCard ''1'' ''T'' True, mkCard ''2'' ''O'' True, mkCard ''3'' ''T'' True,
      mkCard ''4'' ''O'' True] exampleData
     = Some [\<lparr>cardIds = [ascii ''1'', ascii ''2''], used = False, isAnswer = None\<rparr>,
             \<lparr>cardIds = [ascii ''1'', ascii ''4''], used = False, isAnswer = None\<rparr>,
             \<lparr>cardIds = [ascii ''2'', ascii ''3''], used = False, isAnswer = None\<rparr>]"
  by code_simp



text \<open>
  C6. Every hint that \<open>generateHints\<close> returns and that is not the answer hint holds the
  sorted ids of a pair (\<open>i < j\<close>) or a triple (\<open>i < j < k\<close>) of the available cards for
  which the reverse index, under the key of the group's symbols, lists a candidate that
  passes the containment check for the group and that is the target or a path member
  of the target. Path membership is the relation \<open>pathMember\<close> of the specification,
  over the immediate-component edges of the graph; the code's test
  \<open>isPartOfDecomposition\<close> agrees with it wherever it returns.
\<close>

theorem generateHints_path_members:
  "generateHints t cards data = Some hs \<and> h \<in> set hs \<and> isAnswer h \<noteq> Some True \<longrightarrow>
     (\<exists>grp. ((\<exists>i j. i < j \<and> j < length cards \<and> grp = [cards ! i, cards ! j])
              \<or> (\<exists>i j k. i < j \<and> j < k \<and> k < length cards
                     \<and> grp = [cards ! i, cards ! j, cards ! k]))
        \<and> cardIds h = sort (map cardId grp)
        \<and> (\<exists>cand \<in> set (possibleResults data (map character grp)).
              hasEnoughComponents (map character grp) (getComponentsForWord cand data) data
              \<and> (cand = t \<or> pathMember data cand t)))"
proof
  assume a: "generateHints t cards data = Some hs \<and> h \<in> set hs \<and> isAnswer h \<noteq> Some True"
  have search: "\<not> (\<exists>c \<in> set cards. character c = t)"
  proof
    assume "\<exists>c \<in> set cards. character c = t"
    from generateHints_answer [OF this, of data] a show False by auto
  qed
  from generateHints_search [OF search, of data] a
  obtain steps where steps: "findValidNextSteps t cards data = Some steps"
      and hs: "hs = fst (fold takeHint (sort_key (stepRank t) steps) ([], []))"
    by (auto simp: searchHints_def split: bind_splits)
  from a hs have "h \<in> set (fst (fold takeHint (sort_key (stepRank t) steps) ([], [])))"
    by simp
  from fold_takeHint_member [OF this]
  obtain step where step: "step \<in> set steps"
      "h = \<lparr>cardIds = sort (stepCardIds step), used = False, isAnswer = None\<rparr>"
    by auto
  from findValidNextSteps_member [OF steps step(1)]
  obtain grp where grp: "grp \<in> set (pairsOf cards) \<union> set (triplesOf cards)"
      "stepCardIds step = map cardId grp"
      "result step \<in> set (possibleResults data (map character grp))"
      "hasEnoughComponents (map character grp) (getComponentsForWord (result step) data) data"
      "result step = t \<or> isPartOfDecomposition (result step) t data = Some True"
    by blast
  from grp(5) have member: "result step = t \<or> pathMember data (result step) t"
    using isPartOfDecomposition_pathMember by blast
  from grp(1) have shape: "(\<exists>i j. i < j \<and> j < length cards \<and> grp = [cards ! i, cards ! j])
              \<or> (\<exists>i j k. i < j \<and> j < k \<and> k < length cards
                     \<and> grp = [cards ! i, cards ! j, cards ! k])"
    using pairsOf_member triplesOf_member by blast
  show "\<exists>grp. ((\<exists>i j. i < j \<and> j < length cards \<and> grp = [cards ! i, cards ! j])
              \<or> (\<exists>i j k. i < j \<and> j < k \<and> k < length cards
                     \<and> grp = [cards ! i, cards ! j, cards ! k]))
        \<and> cardIds h = sort (map cardId grp)
        \<and> (\<exists>cand \<in> set (possibleResults data (map character grp)).
              hasEnoughComponents (map character grp) (getComponentsForWord cand data) data
              \<and> (cand = t \<or> pathMember data cand t))"
    using shape step(2) grp(2,3,4) member by (intro exI [of _ grp]) auto
qed

theorem generateHints_path_members_witness:
  "generateHints (ascii ''G'')
     [mkCard ''1'' ''T'' True, mkCard ''2'' ''O'' True, mkCard ''3'' ''T'' True,
      mkCard ''4'' ''O'' True] exampleData
     = Some [\<lparr>cardIds = [ascii ''1'', ascii ''2''], used = False, isAnswer = None\<rparr>,
             \<lparr>cardIds = [ascii ''1'', ascii ''4''], used = False, isAnswer = None\<rparr>,
             \<lparr>cardIds = [ascii ''2'', ascii ''3''], used = False, isAnswer = None\<rparr>]
   \<and> (\<exists>grp. ((\<exists>i j. i < j \<and> j < length [mkCard ''1'' ''T'' True, mkCard ''2'' ''O'' True,
                                           mkCard ''3'' ''T'' True, mkCard ''4'' ''O'' True]
                   \<and> grp = [[mkCard ''1'' ''T'' True, mkCard ''2'' ''O'' True,
                             mkCard ''3'' ''T'' True, mkCard ''4'' ''O'' True] ! i,
                            [mkCard ''1'' ''T'' True, mkCard ''2'' ''O'' True,
                             mkCard ''3'' ''T'' True, mkCard ''4'' ''O'' True] ! j])
              \<or> (\<exists>i j k. i < j \<and> j < k
                     \<and> k < length [mkCard ''1'' ''T'' True, mkCard ''2'' ''O'' True,
                                   mkCard ''3'' ''T'' True, mkCard ''4'' ''O'' True]
                     \<and> grp = [[mkCard ''1'' ''T'' True, mkCard ''2'' ''O'' True,
                               mkCard ''3'' ''T'' True, mkCard ''4'' ''O'' True] ! i,
                              [mkCard ''1'' ''T'' True, mkCard ''2'' ''O'' True,
                               mkCard ''3'' ''T'' True, mkCard ''4'' ''O'' True] ! j,
                              [mkCard ''1'' ''T'' True, mkCard ''2'' ''O'' True,
                               mkCard ''3'' ''T'' True, mkCard ''4'' ''O'' True] ! k]))
        \<and> [ascii ''1'', ascii ''4''] = sort (map cardId grp)
        \<and> (\<exists>cand \<in> set (possibleResults exampleData (map character grp)).
              hasEnoughComponents (map character grp) (getComponentsForWord cand exampleData)
                exampleData
              \<and> (cand = ascii ''G'' \<or> pathMember exampleData cand (ascii ''G''))))"
proof -
  let ?cards = "[mkCard ''1'' ''T'' True, mkCard ''2'' ''O'' True, mkCard ''3'' ''T'' True,
      mkCard ''4'' ''O'' True]"
  let ?h = "\<lparr>cardIds = [ascii ''1'', ascii ''4''], used = False, isAnswer = None\<rparr>"
  let ?hs = "[\<lparr>cardIds = [ascii ''1'', ascii ''2''], used = False, isAnswer = None\<rparr>,
             ?h,
             \<lparr>cardIds = [ascii ''2'', ascii ''3''], used = False, isAnswer = None\<rparr>]"
  have run: "generateHints (ascii ''G'') ?cards exampleData = Some ?hs"
    by (rule exampleData_hints)
  have pre: "generateHints (ascii ''G'') ?cards exampleData = Some ?hs \<and> ?h \<in> set ?hs
               \<and> isAnswer ?h \<noteq> Some True"
    using run by simp
  note concl = generateHints_path_members
                 [of "ascii ''G''" ?cards exampleData ?hs ?h, THEN mp, OF pre,
                  unfolded Hint.simps]
  show ?thesis
    by (intro conjI run concl)
qed

lemma isPartOfDecomposition_cyclic_aux:
  assumes "isPartOfDecomposition char target data = Some y"
  shows "\<not> (data = cyclicData \<and> char = ascii ''X''
            \<and> (target = ascii ''A'' \<or> target = ascii ''B''))"
proof (rule isPartOfDecomposition.raw_induct
         [where P = "\<lambda>char target data y.
                       \<not> (data = cyclicData \<and> char = ascii ''X''
                          \<and> (target = ascii ''A'' \<or> target = ascii ''B''))", OF _ assms])
  fix f char target data y
  assume IH: "\<And>char target data y. f char target data = Some y \<Longrightarrow>
     \<not> (data = cyclicData \<and> char = ascii ''X''
        \<and> (target = ascii ''A'' \<or> target = ascii ''B''))"
    and step: "(case fmlookup (charToDecomposition data) target of
        None \<Rightarrow> Some False
      | Some targetDecomp \<Rightarrow>
          if char \<in> set (components targetDecomp) then Some True
          else forSome (\<lambda>component. f char component data)
                 (components targetDecomp)) = Some y"
  show "\<not> (data = cyclicData \<and> char = ascii ''X''
           \<and> (target = ascii ''A'' \<or> target = ascii ''B''))"
  proof
    assume a: "data = cyclicData \<and> char = ascii ''X''
                 \<and> (target = ascii ''A'' \<or> target = ascii ''B'')"
    have fA: "f (ascii ''X'') (ascii ''A'') cyclicData = None"
      using IH [of "ascii ''X''" "ascii ''A''" cyclicData]
      by (cases "f (ascii ''X'') (ascii ''A'') cyclicData") auto
    have fB: "f (ascii ''X'') (ascii ''B'') cyclicData = None"
      using IH [of "ascii ''X''" "ascii ''B''" cyclicData]
      by (cases "f (ascii ''X'') (ascii ''B'') cyclicData") auto
    have neq: "ascii ''X'' \<noteq> ascii ''A''" "ascii ''X'' \<noteq> ascii ''B''"
      by (simp_all add: ascii_def)
    from a consider "target = ascii ''A''" | "target = ascii ''B''" by blast
    then show False
    proof cases
      case 1
      with a step fB neq show False by (simp add: cyclicData_lookup mkDecomp_def)
    next
      case 2
      with a step fA neq show False by (simp add: cyclicData_lookup mkDecomp_def)
    qed
  qed
qed

lemma isPartOfDecomposition_cyclic:
  "isPartOfDecomposition (ascii ''X'') (ascii ''A'') cyclicData = None"
  using isPartOfDecomposition_cyclic_aux [of "ascii ''X''" "ascii ''A''" cyclicData]
  by (cases "isPartOfDecomposition (ascii ''X'') (ascii ''A'') cyclicData") auto

text \<open>
  C2. The leaf reduction, the containment check, the combination finder and the pool
  operations are total functions of every graph, and \<open>isPartOfDecomposition\<close> returns
  on every graph without cycles (\<open>isPartOfDecomposition_total\<close>). On a graph with a
  cycle it need not: with \<open>A\<close> made of \<open>[B]\<close> and \<open>B\<close> of \<open>[A]\<close>, the test whether \<open>X\<close> is
  part of \<open>A\<close> never returns, and neither does the hint search for the target \<open>A\<close> from
  the cards \<open>P\<close> and \<open>Q\<close>, which combine into \<open>X\<close>.
\<close>

theorem hint_search_diverges_on_cycle:
  "isPartOfDecomposition (ascii ''X'') (ascii ''A'') cyclicData = None
   \<and> generateHints (ascii ''A'') [mkCard ''1'' ''P'' True, mkCard ''2'' ''Q'' True] cyclicData
       = None"
proof -
  let ?cards = "[mkCard ''1'' ''P'' True, mkCard ''2'' ''Q'' True]"
  have pairs: "pairsOf ?cards = [?cards]"
    by code_simp
  have listed: "possibleResults cyclicData (map character ?cards) = [ascii ''X'']"
    by code_simp
  have enough: "hasEnoughComponents (map character ?cards)
                  (getComponentsForWord (ascii ''X'') cyclicData) cyclicData"
    by code_simp
  have neq: "ascii ''X'' \<noteq> ascii ''A''"
    by (simp add: ascii_def)
  have "stepsForResult (ascii ''A'') cyclicData ?cards (ascii ''X'') = None"
    unfolding stepsForResult_def Let_def using enough neq
    by (simp add: isPartOfDecomposition_cyclic)
  then have "stepsForGroup (ascii ''A'') cyclicData ?cards = None"
    unfolding stepsForGroup_def listed by simp
  then have "findValidNextSteps (ascii ''A'') ?cards cyclicData = None"
    unfolding findValidNextSteps_def pairs by simp
  then have "searchHints (ascii ''A'') ?cards cyclicData = None"
    by (simp add: searchHints_def)
  moreover have absent: "\<not> (\<exists>c \<in> set ?cards. character c = ascii ''A'')"
    by (simp add: mkCard_def ascii_def)
  ultimately have "generateHints (ascii ''A'') ?cards cyclicData = None"
    using generateHints_search [OF absent, of cyclicData] by simp
  then show ?thesis
    using isPartOfDecomposition_cyclic by simp
qed

end
